theory Spec2Isabelle
  imports Complex_Main "HOL-Library.Word"
begin

section \<open>The worker of the sharded UDP echo server (src/server/main.cpp)\<close>

subsection \<open>Data model\<close>

text \<open>
  Handles are machine words. An \<open>io_context*\<close> is an address, a natural number here;
  the contexts themselves live in a store that maps addresses to their contents.
\<close>

type_synonym SOCKET = "64 word"
type_synonym HANDLE = "64 word"
type_synonym io_ptr = nat
type_synonym bytes = "8 word list"

datatype io_operation_type = recv | send

text \<open>
  The \<open>io_context\<close> structure is declared in common/socket_utils.hpp, outside the code
  verified here; the fields below are the ones \<open>worker_thread_func\<close> reads
  (\<open>operation\<close>, \<open>buffer\<close>, \<open>remote_addr\<close>, and \<open>remote_addr_len\<close>, a C
  \<open>int\<close> held as a 32-bit word).
\<close>

record io_context =
  operation :: io_operation_type
  buffer :: bytes
  remote_addr :: bytes
  remote_addr_len :: "32 word"

text \<open>\<open>struct worker_context\<close>; the four counters are \<open>std::atomic<uint64_t>\<close>.\<close>

record worker_context =
  processor_id :: "32 word"
  socket :: SOCKET
  iocp :: HANDLE
  packets_received :: "64 word"
  packets_sent :: "64 word"
  bytes_received :: "64 word"
  bytes_sent :: "64 word"

text \<open>
  A worker context as \<open>main\<close> builds it (lines 223, 224, 247 and 291): the counters
  start at zero by their member initialisers, and the processor id, the socket and the
  completion port are assigned.
\<close>

definition new_worker_context :: "32 word \<Rightarrow> SOCKET \<Rightarrow> HANDLE \<Rightarrow> worker_context" where
  "new_worker_context i sock h =
     \<lparr> processor_id = i, socket = sock, iocp = h,
       packets_received = 0, packets_sent = 0, bytes_received = 0, bytes_sent = 0 \<rparr>"

text \<open>
  One entry of the array filled by \<open>GetQueuedCompletionStatusEx\<close>. A null
  \<open>lpOverlapped\<close> is \<open>None\<close>.
\<close>

record OVERLAPPED_ENTRY =
  lpCompletionKey :: "64 word"
  lpOverlapped :: "io_ptr option"
  dwNumberOfBytesTransferred :: "32 word"

text \<open>
  Every call the worker makes to \<open>post_recv\<close> and \<open>post_send\<close> is recorded with its
  arguments and with the value the call returned. The payload of a send is given the way
  the source gives it: the contents at the data pointer and a length.
\<close>

datatype io_call =
    PostRecv SOCKET io_ptr bool
  | PostSend SOCKET io_ptr bytes "32 word" bytes "32 word" bool

text \<open>
  The state of \<open>worker_thread_func\<close>: the worker context it was given, its three local
  vectors, the store of contexts, the contexts on which a request is outstanding in the
  kernel, and the calls posted so far.
\<close>

record worker_state =
  ctx :: worker_context
  recv_contexts :: "io_ptr list"
  send_contexts :: "io_ptr list"
  available_send_contexts :: "io_ptr list"
  heap :: "io_ptr \<Rightarrow> io_context"
  outstanding :: "io_ptr list"
  posted :: "io_call list"

subsection \<open>Posting requests\<close>

text \<open>
  Modelled from the spec: \<open>post_recv\<close> and \<open>post_send\<close> are defined in
  common/socket_utils.hpp, outside the code verified here. By the spec (sections 3 and
  4.2) a context carries one outstanding request through the kernel and its operation tag
  says which; a posted context is kernel-owned until its completion is delivered. Whether
  a call succeeds is decided by the operating system, so the returned value \<open>ok\<close> is an
  input. A failed call leaves no request outstanding.
\<close>

definition post_recv :: "SOCKET \<Rightarrow> io_ptr \<Rightarrow> bool \<Rightarrow> worker_state \<Rightarrow> worker_state" where
  "post_recv sock p ok s =
     s\<lparr> heap := (heap s)(p := (heap s p)\<lparr>operation := recv\<rparr>),
        outstanding := (if ok then outstanding s @ [p] else outstanding s),
        posted := posted s @ [PostRecv sock p ok] \<rparr>"

definition post_send ::
  "SOCKET \<Rightarrow> io_ptr \<Rightarrow> bytes \<Rightarrow> 32 word \<Rightarrow> bytes \<Rightarrow> 32 word \<Rightarrow> bool \<Rightarrow> worker_state \<Rightarrow> worker_state" where
  "post_send sock p data len addr addr_len ok s =
     s\<lparr> heap := (heap s)(p := (heap s p)\<lparr>operation := send\<rparr>),
        outstanding := (if ok then outstanding s @ [p] else outstanding s),
        posted := posted s @ [PostSend sock p data len addr addr_len ok] \<rparr>"

text \<open>The bytes a posted send carries: the first \<open>len\<close> bytes at the data pointer.\<close>

fun payload :: "io_call \<Rightarrow> bytes" where
  "payload (PostSend sock p data len addr addr_len ok) = take (unat len) data"
| "payload (PostRecv sock p ok) = []"

subsection \<open>Counter updates\<close>

text \<open>\<open>fetch_add\<close> on a 64-bit unsigned atomic: addition modulo \<open>2 ^ 64\<close>.\<close>

definition count_received :: "32 word \<Rightarrow> worker_context \<Rightarrow> worker_context" where
  "count_received n c =
     c\<lparr> packets_received := packets_received c + 1,
        bytes_received := bytes_received c + ucast n \<rparr>"

definition count_sent :: "32 word \<Rightarrow> worker_context \<Rightarrow> worker_context" where
  "count_sent n c =
     c\<lparr> packets_sent := packets_sent c + 1,
        bytes_sent := bytes_sent c + ucast n \<rparr>"

subsection \<open>The body of the completion loop\<close>

text \<open>
  One iteration of the \<open>for\<close> loop over the dequeued entries (main.cpp, lines 96 to 138).
  \<open>send_ok\<close> and \<open>recv_ok\<close> are what \<open>post_send\<close> and \<open>post_recv\<close> return if
  this iteration calls them.
\<close>

definition handle_entry :: "bool \<Rightarrow> bool \<Rightarrow> OVERLAPPED_ENTRY \<Rightarrow> worker_state \<Rightarrow> worker_state" where
  "handle_entry send_ok recv_ok e s =
     (case lpOverlapped e of
        None \<Rightarrow> s
      | Some io_ctx \<Rightarrow>
          let bytes_transferred = dwNumberOfBytesTransferred e in
          if operation (heap s io_ctx) = recv then
            let s1 = s\<lparr>ctx := count_received bytes_transferred (ctx s)\<rparr> in
            if 0 < bytes_transferred then
              if available_send_contexts s1 \<noteq> [] then
                let send_ctx = last (available_send_contexts s1);
                    s2 = s1\<lparr>available_send_contexts := butlast (available_send_contexts s1)\<rparr>;
                    s3 = post_send (socket (ctx s2)) send_ctx (buffer (heap s2 io_ctx))
                           bytes_transferred (remote_addr (heap s2 io_ctx))
                           (remote_addr_len (heap s2 io_ctx)) send_ok s2;
                    s4 = (if send_ok
                          then s3\<lparr>ctx := count_sent bytes_transferred (ctx s3)\<rparr>
                          else s3\<lparr>available_send_contexts :=
                                    available_send_contexts s3 @ [send_ctx]\<rparr>)
                in post_recv (socket (ctx s4)) io_ctx recv_ok s4
              else post_recv (socket (ctx s1)) io_ctx recv_ok s1
            else post_recv (socket (ctx s1)) io_ctx recv_ok s1
          else s\<lparr>available_send_contexts := available_send_contexts s @ [io_ctx]\<rparr>)"

subsection \<open>Start-up and the completion loop\<close>

text \<open>
  Lines 45 to 66: \<open>OUTSTANDING_OPS\<close> receive contexts and as many send contexts are
  allocated, every send context is pushed on \<open>available_send_contexts\<close> in order, and a
  receive is posted on every receive context. \<open>OUTSTANDING_OPS\<close> is a constant of
  common/socket_utils.hpp and the freshly constructed \<open>io_context\<close> is its constructor's
  result; both are parameters here. The allocator hands out fresh objects: the receive
  contexts get the addresses \<open>0, ..., n - 1\<close>, the send contexts \<open>n, ..., 2 n - 1\<close>.
  \<open>init_ok p\<close> is what the initial \<open>post_recv\<close> on context \<open>p\<close> returns.
\<close>

definition worker_startup ::
  "nat \<Rightarrow> io_context \<Rightarrow> (io_ptr \<Rightarrow> bool) \<Rightarrow> worker_context \<Rightarrow> worker_state" where
  "worker_startup OUTSTANDING_OPS fresh init_ok wc =
     fold (\<lambda>recv_ctx s. post_recv (socket (ctx s)) recv_ctx (init_ok recv_ctx) s)
       [0 ..< OUTSTANDING_OPS]
       \<lparr> ctx = wc,
         recv_contexts = [0 ..< OUTSTANDING_OPS],
         send_contexts = [OUTSTANDING_OPS ..< 2 * OUTSTANDING_OPS],
         available_send_contexts = [OUTSTANDING_OPS ..< 2 * OUTSTANDING_OPS],
         heap = (\<lambda>p. fresh),
         outstanding = [],
         posted = [] \<rparr>"

text \<open>
  What the environment contributes to one loop iteration: the dequeued entry and the
  results of the posts made while handling it.
\<close>

record completion =
  entry :: OVERLAPPED_ENTRY
  send_result :: bool
  recv_result :: bool

text \<open>
  The kernel's part of a completion: the request on the completed context is no longer
  outstanding. (For a Recv the kernel has also written the datagram and its source address
  into the context. \<open>handle_entry\<close> works on whatever the context holds, so these
  contents are left open.)
\<close>

definition deliver :: "OVERLAPPED_ENTRY \<Rightarrow> worker_state \<Rightarrow> worker_state" where
  "deliver e s =
     (case lpOverlapped e of
        None \<Rightarrow> s
      | Some p \<Rightarrow> s\<lparr>outstanding := remove1 p (outstanding s)\<rparr>)"

definition step :: "completion \<Rightarrow> worker_state \<Rightarrow> worker_state" where
  "step c s = handle_entry (send_result c) (recv_result c) (entry c) (deliver (entry c) s)"

text \<open>The \<open>for\<close> loop over one dequeued batch, in the order the kernel returned it.\<close>

definition process_entries :: "completion list \<Rightarrow> worker_state \<Rightarrow> worker_state" where
  "process_entries cs s = fold step cs s"

text \<open>
  One call of \<open>GetQueuedCompletionStatusEx\<close>: it fails (with the error code of
  \<open>GetLastError\<close>, a timeout included) or it returns a batch. The \<open>while\<close> loop runs
  once per call until the shutdown flag is seen; both failure branches and an empty batch
  go on to the next iteration.
\<close>

datatype dequeue_result = DequeueFailed "32 word" | Dequeued "completion list"

fun worker_loop :: "dequeue_result list \<Rightarrow> worker_state \<Rightarrow> worker_state" where
  "worker_loop [] s = s"
| "worker_loop (DequeueFailed err # rest) s = worker_loop rest s"
| "worker_loop (Dequeued cs # rest) s =
     (if cs = [] then worker_loop rest s else worker_loop rest (process_entries cs s))"

subsection \<open>Runs of the loop, and what the kernel may deliver\<close>

text \<open>All completions of a run, in the order they are handled.\<close>

fun entries_of :: "dequeue_result list \<Rightarrow> completion list" where
  "entries_of [] = []"
| "entries_of (DequeueFailed err # rest) = entries_of rest"
| "entries_of (Dequeued cs # rest) = cs @ entries_of rest"

text \<open>
  The datagrams and bytes received, as unbounded numbers: what the completion \<open>c\<close>,
  handled in state \<open>s\<close>, stands for (one datagram of \<open>bytes_transferred\<close> bytes if it is
  a Recv completion), and the totals over a run.
\<close>

definition received_by :: "completion \<Rightarrow> worker_state \<Rightarrow> nat \<times> nat" where
  "received_by c s =
     (case lpOverlapped (entry c) of
        None \<Rightarrow> (0, 0)
      | Some p \<Rightarrow>
          if operation (heap s p) = recv
          then (1, unat (dwNumberOfBytesTransferred (entry c))) else (0, 0))"

fun received_total :: "completion list \<Rightarrow> worker_state \<Rightarrow> nat \<times> nat" where
  "received_total [] s = (0, 0)"
| "received_total (c # cs) s =
     (fst (received_by c s) + fst (received_total cs (step c s)),
      snd (received_by c s) + snd (received_total cs (step c s)))"

text \<open>
  A completion port reports a completion only for a request that is outstanding, once. A
  run is valid when every completion in it is of that kind (or carries no request at all).
\<close>

definition admissible :: "completion \<Rightarrow> worker_state \<Rightarrow> bool" where
  "admissible c s =
     (case lpOverlapped (entry c) of None \<Rightarrow> True | Some p \<Rightarrow> p \<in> set (outstanding s))"

fun valid_run :: "completion list \<Rightarrow> worker_state \<Rightarrow> bool" where
  "valid_run [] s = True"
| "valid_run (c # cs) s = (admissible c s \<and> valid_run cs (step c s))"

text \<open>
  The states of a context (spec, section 3). \<open>cur\<close> is the context whose completion has
  been dequeued and is being handled, if any. \<open>ownerships cur s p\<close> lists every state the
  context \<open>p\<close> is in. A Recv Context whose post failed is in none of the three states of
  the spec: the code does not post it again (the result of \<open>post_recv\<close> is dropped at
  lines 118 and 133 and only logged at line 64), so it stays with the application, idle,
  for the rest of the worker's life (spec, section 4.2, failure semantics). That is the
  fourth state here.
\<close>

datatype ownership =
  kernel_owned | application_free | application_executing | application_idle

definition ownerships :: "io_ptr option \<Rightarrow> worker_state \<Rightarrow> io_ptr \<Rightarrow> ownership list" where
  "ownerships cur s p =
     (if p \<in> set (outstanding s) then [kernel_owned] else []) @
     (if p \<in> set (available_send_contexts s) then [application_free] else []) @
     (if cur = Some p then [application_executing] else [])"

text \<open>
  The number of requests outstanding in the kernel on contexts of a pool, and the number
  of contexts of the pool that the application holds.
\<close>

definition in_kernel :: "io_ptr list \<Rightarrow> worker_state \<Rightarrow> nat" where
  "in_kernel pool s = length (filter (\<lambda>p. p \<in> set pool) (outstanding s))"

definition in_application :: "io_ptr list \<Rightarrow> worker_state \<Rightarrow> nat" where
  "in_application pool s = length (filter (\<lambda>p. p \<notin> set (outstanding s)) pool)"

text \<open>
  What the last \<open>post_recv\<close> on the context \<open>p\<close> returned, read off the calls made so
  far; \<open>None\<close> if there was none.
\<close>

definition last_recv_post :: "io_call list \<Rightarrow> io_ptr \<Rightarrow> bool option" where
  "last_recv_post calls p =
     fold (\<lambda>c r. case c of
                   PostRecv sock q ok \<Rightarrow> if q = p then Some ok else r
                 | PostSend sock q data len addr addr_len ok \<Rightarrow> r)
       calls None"

text \<open>
  The states of a Recv Context: a request on it is outstanding in the kernel, or its
  completion is being handled, or it is idle in the application because the last
  \<open>post_recv\<close> on it failed. The Recv Contexts the application holds are those in the
  last two states.
\<close>

definition recv_ownerships :: "io_ptr option \<Rightarrow> worker_state \<Rightarrow> io_ptr \<Rightarrow> ownership list" where
  "recv_ownerships cur s p =
     (if p \<in> set (outstanding s) then [kernel_owned] else []) @
     (if cur = Some p then [application_executing] else []) @
     (if last_recv_post (posted s) p = Some False then [application_idle] else [])"

definition recv_in_application :: "io_ptr option \<Rightarrow> worker_state \<Rightarrow> nat" where
  "recv_in_application cur s =
     length (filter (\<lambda>p. cur = Some p \<or> last_recv_post (posted s) p = Some False)
               (recv_contexts s))"

text \<open>The invariant of the two pools of \<open>n\<close> contexts each.\<close>

definition pool_inv :: "nat \<Rightarrow> worker_state \<Rightarrow> bool" where
  "pool_inv n s \<longleftrightarrow>
     recv_contexts s = [0 ..< n] \<and> send_contexts s = [n ..< 2 * n]
   \<and> distinct (outstanding s) \<and> distinct (available_send_contexts s)
   \<and> set (outstanding s) \<subseteq> {0 ..< 2 * n}
   \<and> set (available_send_contexts s) \<subseteq> {n ..< 2 * n}
   \<and> set (outstanding s) \<inter> set (available_send_contexts s) = {}
   \<and> {n ..< 2 * n} \<subseteq> set (outstanding s) \<union> set (available_send_contexts s)
   \<and> (\<forall>p \<in> set (outstanding s). operation (heap s p) = (if p < n then recv else send))"

text \<open>
  Between two completions a Recv Context has a request outstanding exactly if the last
  \<open>post_recv\<close> on it succeeded.
\<close>

definition recv_posts_inv :: "nat \<Rightarrow> worker_state \<Rightarrow> bool" where
  "recv_posts_inv n s \<longleftrightarrow>
     (\<forall>p < n. last_recv_post (posted s) p = Some (p \<in> set (outstanding s)))"

section \<open>Start-up in \<open>main\<close> (src/server/main.cpp)\<close>

subsection \<open>Reading the arguments\<close>

text \<open>
  The C library's \<open>strtol\<close> with base 10 and \<open>atoi\<close>, as \<open>main\<close> calls them on the
  argument strings: leading white space is skipped, an optional sign is read, then
  decimal digits up to the first other character; without digits the value is 0. On
  Windows \<open>long\<close> and \<open>int\<close> have 32 bits and a value out of range is returned as the
  nearest bound.
\<close>

definition isspace :: "char \<Rightarrow> bool" where
  "isspace c \<longleftrightarrow> of_char c \<in> {32, 9, 10, 11, 12, 13 :: nat}"

definition isdigit :: "char \<Rightarrow> bool" where
  "isdigit c \<longleftrightarrow> 48 \<le> (of_char c :: nat) \<and> (of_char c :: nat) \<le> 57"

fun digits_value :: "int \<Rightarrow> string \<Rightarrow> int" where
  "digits_value acc [] = acc"
| "digits_value acc (c # cs) =
     (if isdigit c then digits_value (10 * acc + (of_char c - 48)) cs else acc)"

definition LONG_MAX :: int where "LONG_MAX = 2 ^ 31 - 1"
definition LONG_MIN :: int where "LONG_MIN = - (2 ^ 31)"

definition strtol :: "string \<Rightarrow> int" where
  "strtol s =
     (let t = dropWhile isspace s;
          v = (case t of
                 [] \<Rightarrow> 0
               | c # r \<Rightarrow>
                   if c = CHR ''-'' then - digits_value 0 r
                   else if c = CHR ''+'' then digits_value 0 r
                   else digits_value 0 t)
      in max LONG_MIN (min LONG_MAX v))"

definition atoi :: "string \<Rightarrow> int" where
  "atoi s = strtol s"

text \<open>
  Lines 189 to 196. \<open>get_processor_count\<close> is declared in common/socket_utils.hpp; its
  result is the parameter \<open>num_processors\<close>. \<open>requested\<close> is an \<open>int\<close>, compared after
  a cast to \<open>uint32_t\<close>.
\<close>

definition select_num_workers :: "32 word \<Rightarrow> string \<Rightarrow> 32 word" where
  "select_num_workers num_processors cores_str =
     (if cores_str \<noteq> [] then
        let requested = atoi cores_str in
        if 0 < requested \<and> (word_of_int requested :: 32 word) \<le> num_processors
        then word_of_int requested else num_processors
      else num_processors)"


text \<open>
  Lines 167 to 203: \<open>main\<close> returns 0 for \<open>--help\<close> and 1 for a missing or invalid
  port (\<open>Inl\<close> with the exit code); otherwise it goes on with the port, the worker count
  and the buffer size. The strings are what \<open>ArgParser::get\<close> returned.
\<close>

record config =
  port_number :: int
  worker_count :: "32 word"
  recv_buffer_bytes :: int


subsection \<open>Creating the workers\<close>

text \<open>
  The calls \<open>main\<close> makes for one worker index, each with its arguments and with what it
  returned. The results are the operating system's, so they are inputs (\<open>os_results\<close>);
  \<open>None\<close> stands for \<open>INVALID_SOCKET\<close> and for a null handle.
\<close>

datatype address_family = AF_INET | AF_INET6

datatype sys_call =
    CreateUdpSocket address_family "SOCKET option"
  | SetV6Only SOCKET int int
  | SetSocketCpuAffinity SOCKET "16 word" bool
  | SetRcvBuf SOCKET int int
  | SetSndBuf SOCKET int int
  | Bind SOCKET address_family "16 word" int
  | CloseSocket SOCKET
  | CreateIocp SOCKET "HANDLE option"

record os_results =
  socket_v6 :: "SOCKET option"
  socket_v4 :: "SOCKET option"
  v6only_rc :: int
  affinity_ok :: bool
  rcvbuf_rc :: int
  sndbuf_rc :: int
  bind_rc :: int
  iocp_handle :: "HANDLE option"

definition SOCKET_ERROR :: int where "SOCKET_ERROR = - 1"

text \<open>
  Lines 247 to 299, once a socket exists: affinity and buffer sizes (failures are
  warnings), bind in the chosen family, completion port. The worker is retained
  (\<open>Some\<close>) when bind and the completion port succeed.
\<close>

definition setup_endpoint ::
  "32 word \<Rightarrow> int \<Rightarrow> int \<Rightarrow> os_results \<Rightarrow> SOCKET \<Rightarrow> bool \<Rightarrow> sys_call list \<times> worker_context option" where
  "setup_endpoint i port recvbuf os sock using_ipv6 =
     (let sndbuf = recvbuf;
          calls =
            [SetSocketCpuAffinity sock (ucast i) (affinity_ok os),
             SetRcvBuf sock recvbuf (rcvbuf_rc os),
             SetSndBuf sock sndbuf (sndbuf_rc os),
             Bind sock (if using_ipv6 then AF_INET6 else AF_INET) (word_of_int port) (bind_rc os)];
          bind_ok = (bind_rc os \<noteq> SOCKET_ERROR)
      in if \<not> bind_ok then (calls @ [CloseSocket sock], None)
         else case iocp_handle os of
                None \<Rightarrow> (calls @ [CreateIocp sock None, CloseSocket sock], None)
              | Some h \<Rightarrow> (calls @ [CreateIocp sock (Some h)], Some (new_worker_context i sock h)))"

text \<open>
  Lines 226 to 245, then the rest of the loop body. Both branches on the result of
  \<open>setsockopt(IPV6_V6ONLY)\<close> set \<open>using_ipv6\<close>, as in the source.
\<close>

definition create_worker ::
  "32 word \<Rightarrow> int \<Rightarrow> int \<Rightarrow> os_results \<Rightarrow> sys_call list \<times> worker_context option" where
  "create_worker i port recvbuf os =
     (case socket_v6 os of
        None \<Rightarrow>
          (case socket_v4 os of
             None \<Rightarrow> ([CreateUdpSocket AF_INET6 None, CreateUdpSocket AF_INET None], None)
           | Some sock \<Rightarrow>
               let using_ipv6 = False;
                   (calls, w) = setup_endpoint i port recvbuf os sock using_ipv6
               in ([CreateUdpSocket AF_INET6 None, CreateUdpSocket AF_INET (Some sock)] @ calls, w))
      | Some sock \<Rightarrow>
          let v6only = 0;
              using_ipv6 = (if v6only_rc os = 0 then True else True);
              (calls, w) = setup_endpoint i port recvbuf os sock using_ipv6
          in ([CreateUdpSocket AF_INET6 (Some sock), SetV6Only sock v6only (v6only_rc os)] @ calls, w))"

text \<open>The loop of line 222 over the worker indices; \<open>os i\<close> are the results at index \<open>i\<close>.\<close>

definition create_workers ::
  "config \<Rightarrow> (nat \<Rightarrow> os_results) \<Rightarrow> (sys_call list \<times> worker_context option) list" where
  "create_workers cfg os =
     map (\<lambda>i. create_worker (of_nat i) (port_number cfg) (recv_buffer_bytes cfg) (os i))
       [0 ..< unat (worker_count cfg)]"


definition v6only_cleared :: "sys_call list \<Rightarrow> SOCKET \<Rightarrow> bool" where
  "v6only_cleared calls sock \<longleftrightarrow> SetV6Only sock 0 0 \<in> set calls"

section \<open>The t-digest (src/common/tdigest.hpp)\<close>

text \<open>
  The digest computes in \<open>double\<close>. Its arithmetic is a parameter of the definitions
  below: the constants \<open>0.0\<close> and \<open>1.0\<close>, the sum and the product with their rounding,
  the comparisons \<open><=\<close> and \<open>>=\<close>, and what \<open>std::sort\<close> does with the comparator
  on the values. What is proved for every such arithmetic holds in particular for IEEE
  double arithmetic, with its rounding, its infinities and its NaN, and for whatever order
  \<open>std::sort\<close> gives to equal or unordered values.
\<close>

record 'd arithmetic =
  d_zero :: 'd
  d_one :: 'd
  d_add :: "'d \<Rightarrow> 'd \<Rightarrow> 'd"
  d_mul :: "'d \<Rightarrow> 'd \<Rightarrow> 'd"
  d_le :: "'d \<Rightarrow> 'd \<Rightarrow> bool"
  d_ge :: "'d \<Rightarrow> 'd \<Rightarrow> bool"
  std_sort :: "('d \<times> 'd) list \<Rightarrow> ('d \<times> 'd) list"

text \<open>
  The members \<open>compression_\<close>, \<open>buffer_\<close>, \<open>centroids_\<close> and \<open>total_weight_\<close>
  carry the prefix \<open>td_\<close> here.
\<close>

record 'd Centroid =
  mean :: 'd
  weight :: 'd

record 'd TDigest =
  td_compression :: 'd
  td_buffer :: "'d list"
  td_centroids :: "'d Centroid list"
  td_total_weight :: 'd



definition add :: "'d arithmetic \<Rightarrow> 'd \<Rightarrow> 'd TDigest \<Rightarrow> 'd TDigest" where
  "add ar x d =
     d\<lparr> td_buffer := td_buffer d @ [x],
        td_total_weight := d_add ar (td_total_weight d) (d_one ar) \<rparr>"






section \<open>Concrete inputs\<close>

text \<open>
  A worker on processor 0 with two contexts of each kind and four-byte buffers, all of
  whose initial receives were posted.
\<close>

definition example_context :: worker_context where
  "example_context = new_worker_context 0 100 200"

definition example_io_context :: io_context where
  "example_io_context =
     \<lparr> operation = recv, buffer = [104, 105, 33, 0], remote_addr = [10, 0, 0, 7],
       remote_addr_len = 4 \<rparr>"

definition example_state :: worker_state where
  "example_state = worker_startup 2 example_io_context (\<lambda>p. True) example_context"

text \<open>A completion on context \<open>p\<close> that transferred \<open>n\<close> bytes, with every post succeeding.\<close>

definition completed :: "io_ptr \<Rightarrow> 32 word \<Rightarrow> OVERLAPPED_ENTRY" where
  "completed p n =
     \<lparr> lpCompletionKey = 0, lpOverlapped = Some p, dwNumberOfBytesTransferred = n \<rparr>"

definition ok_completion :: "io_ptr \<Rightarrow> 32 word \<Rightarrow> completion" where
  "ok_completion p n = \<lparr> entry = completed p n, send_result = True, recv_result = True \<rparr>"

text \<open>
  One echo in \<open>example_state\<close>: a one-byte datagram arrives on receive context 0 and is
  echoed with send context 3, whose Send then completes.
\<close>

definition echo_round :: "completion list" where
  "echo_round = [ok_completion 0 1, ok_completion 3 1]"

text \<open>An empty datagram, then \<open>k\<close> echoes, each dequeued on its own.\<close>

definition zero_then_echoes :: "nat \<Rightarrow> dequeue_result list" where
  "zero_then_echoes k = Dequeued [ok_completion 0 0] # replicate k (Dequeued echo_round)"

text \<open>
  Results of the operating system for one worker index: both socket kinds can be created,
  clearing the IPv6-only flag fails, everything else succeeds.
\<close>

definition example_os :: os_results where
  "example_os =
     \<lparr> socket_v6 = Some 7, socket_v4 = Some 8, v6only_rc = - 1, affinity_ok = True,
       rcvbuf_rc = 0, sndbuf_rc = 0, bind_rc = 0, iocp_handle = Some 9 \<rparr>"



section \<open>Properties of one completion\<close>

lemmas example_defs = example_state_def worker_startup_def example_context_def
  new_worker_context_def example_io_context_def completed_def ok_completion_def
  post_recv_def post_send_def upt_rec

lemmas run_defs = process_entries_def step_def handle_entry_def deliver_def
  count_received_def count_sent_def Let_def

text \<open>
  C1. In an echo attempt (a Recv completion with \<open>bytes_transferred > 0\<close> while a send
  context is free) the worker makes exactly two calls: a \<open>post_send\<close> on its own socket,
  whose data are the contents of the buffer of the completed Recv Context with length
  \<open>bytes_transferred\<close> (so the Send carries the first \<open>bytes_transferred\<close> bytes of that
  buffer, unchanged), addressed to the \<open>remote_addr\<close> and \<open>remote_addr_len\<close> stored in
  that context, followed by the re-post of the Recv Context.
\<close>

theorem echo_send_arguments:
  assumes "lpOverlapped e = Some p"
    and "operation (heap s p) = recv"
    and "0 < dwNumberOfBytesTransferred e"
    and "available_send_contexts s \<noteq> []"
  shows "posted (handle_entry send_ok recv_ok e s)
           = posted s @
             [PostSend (socket (ctx s)) (last (available_send_contexts s)) (buffer (heap s p))
                (dwNumberOfBytesTransferred e) (remote_addr (heap s p))
                (remote_addr_len (heap s p)) send_ok,
              PostRecv (socket (ctx s)) p recv_ok]
       \<and> payload (posted (handle_entry send_ok recv_ok e s) ! length (posted s))
           = take (unat (dwNumberOfBytesTransferred e)) (buffer (heap s p))"
  using assms
  by (simp add: handle_entry_def post_recv_def post_send_def count_received_def
        count_sent_def Let_def nth_append)

theorem echo_send_arguments_witness:
  "lpOverlapped (completed 0 3) = Some 0
 \<and> operation (heap example_state 0) = recv
 \<and> (0 :: 32 word) < dwNumberOfBytesTransferred (completed 0 3)
 \<and> available_send_contexts example_state = [2, 3]
 \<and> posted (handle_entry True True (completed 0 3) example_state)
     = [PostRecv 100 0 True, PostRecv 100 1 True,
        PostSend 100 3 [104, 105, 33, 0] 3 [10, 0, 0, 7] 4 True,
        PostRecv 100 0 True]
 \<and> payload (posted (handle_entry True True (completed 0 3) example_state) ! 2)
     = [104, 105, 33]"
  using echo_send_arguments [of "completed 0 3" 0 example_state True True]
  by (simp add: example_defs)

text \<open>
  C2. A Recv completion that transferred zero bytes adds one to \<open>packets_received\<close> and
  zero to \<open>bytes_received\<close>, takes no Send Context from the free-list, posts no Send,
  leaves \<open>packets_sent\<close> and \<open>bytes_sent\<close> as they were, and re-posts the Recv Context
  on the worker's endpoint: the one call made is \<open>post_recv\<close> on that socket and context.
\<close>

theorem zero_length_recv_not_echoed:
  assumes "lpOverlapped e = Some p"
    and "operation (heap s p) = recv"
    and "dwNumberOfBytesTransferred e = 0"
  shows "packets_received (ctx (handle_entry send_ok recv_ok e s)) = packets_received (ctx s) + 1
       \<and> bytes_received (ctx (handle_entry send_ok recv_ok e s)) = bytes_received (ctx s) + 0
       \<and> available_send_contexts (handle_entry send_ok recv_ok e s) = available_send_contexts s
       \<and> posted (handle_entry send_ok recv_ok e s) = posted s @ [PostRecv (socket (ctx s)) p recv_ok]
       \<and> packets_sent (ctx (handle_entry send_ok recv_ok e s)) = packets_sent (ctx s)
       \<and> bytes_sent (ctx (handle_entry send_ok recv_ok e s)) = bytes_sent (ctx s)"
  using assms by (simp add: handle_entry_def post_recv_def count_received_def Let_def)

theorem zero_length_recv_not_echoed_witness:
  "lpOverlapped (completed 0 0) = Some 0
 \<and> operation (heap example_state 0) = recv
 \<and> dwNumberOfBytesTransferred (completed 0 0) = 0
 \<and> packets_received (ctx (handle_entry True True (completed 0 0) example_state)) = 1
 \<and> bytes_received (ctx (handle_entry True True (completed 0 0) example_state)) = 0
 \<and> available_send_contexts (handle_entry True True (completed 0 0) example_state) = [2, 3]
 \<and> posted (handle_entry True True (completed 0 0) example_state)
      = [PostRecv 100 0 True, PostRecv 100 1 True, PostRecv 100 0 True]
 \<and> packets_sent (ctx (handle_entry True True (completed 0 0) example_state)) = 0
 \<and> bytes_sent (ctx (handle_entry True True (completed 0 0) example_state)) = 0"
  using zero_length_recv_not_echoed [of "completed 0 0" 0 example_state True True]
  by (simp add: example_defs)

text \<open>
  C3. A Recv completion with \<open>bytes_transferred > 0\<close> handled while the free-list of send
  contexts is empty posts no Send (the one call made is the re-post of the Recv Context on
  the worker's endpoint) and leaves \<open>packets_sent\<close> and \<open>bytes_sent\<close> unchanged.
\<close>

theorem echo_dropped_without_send_context:
  assumes "lpOverlapped e = Some p"
    and "operation (heap s p) = recv"
    and "0 < dwNumberOfBytesTransferred e"
    and "available_send_contexts s = []"
  shows "posted (handle_entry send_ok recv_ok e s) = posted s @ [PostRecv (socket (ctx s)) p recv_ok]
       \<and> packets_sent (ctx (handle_entry send_ok recv_ok e s)) = packets_sent (ctx s)
       \<and> bytes_sent (ctx (handle_entry send_ok recv_ok e s)) = bytes_sent (ctx s)
       \<and> available_send_contexts (handle_entry send_ok recv_ok e s) = []"
  using assms by (simp add: handle_entry_def post_recv_def count_received_def Let_def)

lemma example_both_sends_in_flight:
  "available_send_contexts (process_entries [ok_completion 0 3, ok_completion 1 2] example_state) = []"
  "operation (heap (process_entries [ok_completion 0 3, ok_completion 1 2] example_state) 0) = recv"
  "packets_sent (ctx (process_entries [ok_completion 0 3, ok_completion 1 2] example_state)) = 2"
  "bytes_sent (ctx (process_entries [ok_completion 0 3, ok_completion 1 2] example_state)) = 5"
  "socket (ctx (process_entries [ok_completion 0 3, ok_completion 1 2] example_state)) = 100"
  by (simp_all add: example_defs run_defs)

theorem echo_dropped_without_send_context_witness:
  "lpOverlapped (completed 0 3) = Some 0
 \<and> (0 :: 32 word) < dwNumberOfBytesTransferred (completed 0 3)
 \<and> available_send_contexts
      (process_entries [ok_completion 0 3, ok_completion 1 2] example_state) = []
 \<and> posted (handle_entry True True (completed 0 3)
             (process_entries [ok_completion 0 3, ok_completion 1 2] example_state))
     = posted (process_entries [ok_completion 0 3, ok_completion 1 2] example_state)
       @ [PostRecv 100 0 True]
 \<and> packets_sent (ctx (handle_entry True True (completed 0 3)
             (process_entries [ok_completion 0 3, ok_completion 1 2] example_state))) = 2
 \<and> bytes_sent (ctx (handle_entry True True (completed 0 3)
             (process_entries [ok_completion 0 3, ok_completion 1 2] example_state))) = 5"
  using echo_dropped_without_send_context
          [of "completed 0 3" 0
              "process_entries [ok_completion 0 3, ok_completion 1 2] example_state" True True]
    example_both_sends_in_flight
  by (simp add: completed_def)

text \<open>
  C4. In an echo attempt (a Recv completion with \<open>bytes_transferred > 0\<close> and a send
  context on the free-list): if posting the Send fails, the popped send context is back on
  the free-list, which is as it was, and \<open>packets_sent\<close> and \<open>bytes_sent\<close> are
  unchanged; if it succeeds, the context is off the free-list, \<open>packets_sent\<close> is
  incremented by one and \<open>bytes_sent\<close> by \<open>bytes_transferred\<close>.
\<close>

theorem send_counted_only_on_success:
  assumes "lpOverlapped e = Some p"
    and "operation (heap s p) = recv"
    and "0 < dwNumberOfBytesTransferred e"
    and "available_send_contexts s \<noteq> []"
  shows "(\<not> send_ok \<longrightarrow>
            available_send_contexts (handle_entry send_ok recv_ok e s) = available_send_contexts s
          \<and> packets_sent (ctx (handle_entry send_ok recv_ok e s)) = packets_sent (ctx s)
          \<and> bytes_sent (ctx (handle_entry send_ok recv_ok e s)) = bytes_sent (ctx s))
       \<and> (send_ok \<longrightarrow>
            available_send_contexts (handle_entry send_ok recv_ok e s)
              = butlast (available_send_contexts s)
          \<and> packets_sent (ctx (handle_entry send_ok recv_ok e s)) = packets_sent (ctx s) + 1
          \<and> bytes_sent (ctx (handle_entry send_ok recv_ok e s))
              = bytes_sent (ctx s) + ucast (dwNumberOfBytesTransferred e))"
  using assms
  by (simp add: handle_entry_def post_recv_def post_send_def count_received_def
        count_sent_def Let_def)

theorem send_counted_only_on_success_witness:
  "lpOverlapped (completed 0 3) = Some 0
 \<and> operation (heap example_state 0) = recv
 \<and> (0 :: 32 word) < dwNumberOfBytesTransferred (completed 0 3)
 \<and> available_send_contexts example_state = [2, 3]
 \<and> available_send_contexts (handle_entry False True (completed 0 3) example_state) = [2, 3]
 \<and> packets_sent (ctx (handle_entry False True (completed 0 3) example_state)) = 0
 \<and> bytes_sent (ctx (handle_entry False True (completed 0 3) example_state)) = 0
 \<and> available_send_contexts (handle_entry True True (completed 0 3) example_state) = [2]
 \<and> packets_sent (ctx (handle_entry True True (completed 0 3) example_state)) = 1
 \<and> bytes_sent (ctx (handle_entry True True (completed 0 3) example_state)) = 3"
  using send_counted_only_on_success [of "completed 0 3" 0 example_state False True]
    send_counted_only_on_success [of "completed 0 3" 0 example_state True True]
  by (simp add: example_defs)

section \<open>Properties of runs of the worker loop\<close>

lemma worker_loop_entries: "worker_loop bs s = process_entries (entries_of bs) s"
  by (induction bs s rule: worker_loop.induct) (simp_all add: process_entries_def)

lemma process_entries_Cons: "process_entries (c # cs) s = process_entries cs (step c s)"
  by (simp add: process_entries_def)

subsection \<open>The counters\<close>

lemma deliver_fields:
  "ctx (deliver e s) = ctx s" "heap (deliver e s) = heap s"
  "available_send_contexts (deliver e s) = available_send_contexts s"
  by (simp_all add: deliver_def split: option.splits)

lemma step_counters:
  "\<exists>a b. a \<le> fst (received_by c s) \<and> b \<le> snd (received_by c s)
     \<and> packets_received (ctx (step c s)) = packets_received (ctx s) + of_nat (fst (received_by c s))
     \<and> bytes_received (ctx (step c s)) = bytes_received (ctx s) + of_nat (snd (received_by c s))
     \<and> packets_sent (ctx (step c s)) = packets_sent (ctx s) + of_nat a
     \<and> bytes_sent (ctx (step c s)) = bytes_sent (ctx s) + of_nat b"
proof (cases "lpOverlapped (entry c)")
  case None
  then show ?thesis
    by (simp add: step_def handle_entry_def received_by_def deliver_fields)
next
  case (Some p)
  show ?thesis
  proof (cases "operation (heap s p) = recv")
    case False
    with Some show ?thesis
      by (simp add: step_def handle_entry_def received_by_def deliver_fields)
  next
    case True
    let ?n = "dwNumberOfBytesTransferred (entry c)"
    show ?thesis
    proof (cases "0 < ?n \<and> available_send_contexts s \<noteq> [] \<and> send_result c")
      case True
      with Some \<open>operation (heap s p) = recv\<close> show ?thesis
        by (intro exI [of _ 1] exI [of _ "unat ?n"])
           (simp add: step_def handle_entry_def received_by_def Let_def post_recv_def
              post_send_def count_received_def count_sent_def deliver_fields)
    next
      case False
      with Some \<open>operation (heap s p) = recv\<close> show ?thesis
        by (intro exI [of _ 0])
           (auto simp add: step_def handle_entry_def received_by_def Let_def post_recv_def
              post_send_def count_received_def count_sent_def deliver_fields)
    qed
  qed
qed

lemma run_counters:
  "\<exists>a b. a \<le> fst (received_total cs s) \<and> b \<le> snd (received_total cs s)
     \<and> packets_received (ctx (process_entries cs s))
         = packets_received (ctx s) + of_nat (fst (received_total cs s))
     \<and> bytes_received (ctx (process_entries cs s))
         = bytes_received (ctx s) + of_nat (snd (received_total cs s))
     \<and> packets_sent (ctx (process_entries cs s)) = packets_sent (ctx s) + of_nat a
     \<and> bytes_sent (ctx (process_entries cs s)) = bytes_sent (ctx s) + of_nat b"
proof (induction cs arbitrary: s)
  case Nil
  show ?case by (simp add: process_entries_def)
next
  case (Cons c cs)
  obtain a b where ab: "a \<le> fst (received_by c s)" "b \<le> snd (received_by c s)"
    "packets_received (ctx (step c s)) = packets_received (ctx s) + of_nat (fst (received_by c s))"
    "bytes_received (ctx (step c s)) = bytes_received (ctx s) + of_nat (snd (received_by c s))"
    "packets_sent (ctx (step c s)) = packets_sent (ctx s) + of_nat a"
    "bytes_sent (ctx (step c s)) = bytes_sent (ctx s) + of_nat b"
    using step_counters [of c s] by blast
  obtain a' b' where ab': "a' \<le> fst (received_total cs (step c s))"
    "b' \<le> snd (received_total cs (step c s))"
    "packets_received (ctx (process_entries cs (step c s)))
       = packets_received (ctx (step c s)) + of_nat (fst (received_total cs (step c s)))"
    "bytes_received (ctx (process_entries cs (step c s)))
       = bytes_received (ctx (step c s)) + of_nat (snd (received_total cs (step c s)))"
    "packets_sent (ctx (process_entries cs (step c s))) = packets_sent (ctx (step c s)) + of_nat a'"
    "bytes_sent (ctx (process_entries cs (step c s))) = bytes_sent (ctx (step c s)) + of_nat b'"
    using Cons.IH [of "step c s"] by blast
  show ?case
    apply (rule exI [of _ "a + a'"], rule exI [of _ "b + b'"])
    using ab ab' by (simp add: process_entries_Cons)
qed

lemma of_nat_le_word64:
  fixes a b :: nat
  assumes "a \<le> b" "b < 2 ^ 64"
  shows "(of_nat a :: 64 word) \<le> of_nat b"
  using assms by (simp add: word_le_nat_alt unat_of_nat)

lemma initial_recvs:
  "fold (\<lambda>p s. post_recv (socket (ctx s)) p (init_ok p) s) ps s
     = s\<lparr> heap := (\<lambda>p. if p \<in> set ps then (heap s p)\<lparr>operation := recv\<rparr> else heap s p),
          outstanding := outstanding s @ filter init_ok ps,
          posted := posted s @ map (\<lambda>p. PostRecv (socket (ctx s)) p (init_ok p)) ps \<rparr>"
proof (induction ps arbitrary: s)
  case Nil
  show ?case by simp
next
  case (Cons p ps)
  show ?case
    by (simp add: Cons.IH) (auto simp add: post_recv_def fun_eq_iff)
qed

lemma startup_ctx: "ctx (worker_startup n fresh init_ok wc) = wc"
  by (simp add: worker_startup_def initial_recvs)

lemma echo_round_effect:
  assumes "operation (heap s 0) = recv" "available_send_contexts s = [2, 3]"
  shows "operation (heap (process_entries echo_round s) 0) = recv"
    and "available_send_contexts (process_entries echo_round s) = [2, 3]"
    and "packets_received (ctx (process_entries echo_round s)) = packets_received (ctx s) + 1"
    and "packets_sent (ctx (process_entries echo_round s)) = packets_sent (ctx s) + 1"
  using assms
  by (simp_all add: echo_round_def run_defs completed_def ok_completion_def post_recv_def
        post_send_def)

lemma echo_rounds:
  assumes "operation (heap s 0) = recv" "available_send_contexts s = [2, 3]"
  shows "packets_received (ctx (worker_loop (replicate k (Dequeued echo_round)) s))
           = packets_received (ctx s) + of_nat k
       \<and> packets_sent (ctx (worker_loop (replicate k (Dequeued echo_round)) s))
           = packets_sent (ctx s) + of_nat k"
  using assms
proof (induction k arbitrary: s)
  case 0
  then show ?case by simp
next
  case (Suc k)
  have ne: "echo_round \<noteq> []" by (simp add: echo_round_def)
  from echo_round_effect [OF Suc.prems] Suc.IH [of "process_entries echo_round s"] ne
  show ?case by simp
qed

text \<open>
  C6, as stated, fails on the code: the counters are 64-bit and \<open>fetch_add\<close> wraps. After
  one empty datagram and \<open>2 ^ 64 - 1\<close> echoed one-byte datagrams \<open>packets_received\<close> has
  wrapped to 0 while \<open>packets_sent\<close> is \<open>2 ^ 64 - 1\<close>.
\<close>

theorem packets_sent_exceeds_received_after_wrap:
  "packets_received (ctx (worker_loop (zero_then_echoes (2 ^ 64 - 1)) example_state)) = 0
 \<and> packets_sent (ctx (worker_loop (zero_then_echoes (2 ^ 64 - 1)) example_state))
     = 18446744073709551615
 \<and> \<not> packets_sent (ctx (worker_loop (zero_then_echoes (2 ^ 64 - 1)) example_state))
      \<le> packets_received (ctx (worker_loop (zero_then_echoes (2 ^ 64 - 1)) example_state))"
proof -
  let ?s1 = "process_entries [ok_completion 0 0] example_state"
  have s1: "operation (heap ?s1 0) = recv" "available_send_contexts ?s1 = [2, 3]"
    "packets_received (ctx ?s1) = 1" "packets_sent (ctx ?s1) = 0"
    by (simp_all add: run_defs example_defs)
  have "packets_received (ctx (worker_loop (zero_then_echoes (2 ^ 64 - 1)) example_state))
          = 1 + of_nat (2 ^ 64 - 1)"
    and "packets_sent (ctx (worker_loop (zero_then_echoes (2 ^ 64 - 1)) example_state))
          = of_nat (2 ^ 64 - 1)"
    using echo_rounds [OF s1(1,2), of "2 ^ 64 - 1"] s1(3,4)
    by (simp_all add: zero_then_echoes_def)
  then show ?thesis by simp
qed

text \<open>
  C6, amended. For a worker started by \<open>main\<close> (counters at zero), at every point of its
  loop: as long as fewer than \<open>2 ^ 64\<close> datagrams have been received,
  \<open>packets_sent \<le> packets_received\<close>, and as long as fewer than \<open>2 ^ 64\<close> bytes have
  been received, \<open>bytes_sent \<le> bytes_received\<close>.
\<close>

theorem counters_consistent_until_wrap:
  fixes bs :: "dequeue_result list" and n fresh init_ok i sock h
  defines "s0 \<equiv> worker_startup n fresh init_ok (new_worker_context i sock h)"
  defines "s \<equiv> worker_loop bs s0"
  shows "(fst (received_total (entries_of bs) s0) < 2 ^ 64
            \<longrightarrow> packets_sent (ctx s) \<le> packets_received (ctx s))
       \<and> (snd (received_total (entries_of bs) s0) < 2 ^ 64
            \<longrightarrow> bytes_sent (ctx s) \<le> bytes_received (ctx s))"
proof -
  have z: "packets_received (ctx s0) = 0" "bytes_received (ctx s0) = 0"
    "packets_sent (ctx s0) = 0" "bytes_sent (ctx s0) = 0"
    by (simp_all add: s0_def startup_ctx new_worker_context_def)
  obtain a b where ab: "a \<le> fst (received_total (entries_of bs) s0)"
    "b \<le> snd (received_total (entries_of bs) s0)"
    "packets_received (ctx s) = of_nat (fst (received_total (entries_of bs) s0))"
    "bytes_received (ctx s) = of_nat (snd (received_total (entries_of bs) s0))"
    "packets_sent (ctx s) = of_nat a"
    "bytes_sent (ctx s) = of_nat b"
    using run_counters [of "entries_of bs" s0] z
    by (auto simp add: s_def worker_loop_entries)
  show ?thesis
    using ab by (auto intro: of_nat_le_word64)
qed

theorem counters_consistent_until_wrap_witness:
  "received_total (entries_of (zero_then_echoes 1)) example_state = (2, 1)
 \<and> packets_sent (ctx (worker_loop (zero_then_echoes 1) example_state)) = 1
 \<and> packets_received (ctx (worker_loop (zero_then_echoes 1) example_state)) = 2
 \<and> bytes_sent (ctx (worker_loop (zero_then_echoes 1) example_state)) = 1
 \<and> bytes_received (ctx (worker_loop (zero_then_echoes 1) example_state)) = 1
 \<and> packets_sent (ctx (worker_loop (zero_then_echoes 1) example_state))
     \<le> packets_received (ctx (worker_loop (zero_then_echoes 1) example_state))
 \<and> bytes_sent (ctx (worker_loop (zero_then_echoes 1) example_state))
     \<le> bytes_received (ctx (worker_loop (zero_then_echoes 1) example_state))"
proof -
  have t: "received_total (entries_of (zero_then_echoes 1)) example_state = (2, 1)"
    by (simp add: zero_then_echoes_def echo_round_def received_by_def run_defs example_defs)
  have c: "packets_sent (ctx (worker_loop (zero_then_echoes 1) example_state)) = 1"
    "packets_received (ctx (worker_loop (zero_then_echoes 1) example_state)) = 2"
    "bytes_sent (ctx (worker_loop (zero_then_echoes 1) example_state)) = 1"
    "bytes_received (ctx (worker_loop (zero_then_echoes 1) example_state)) = 1"
    by (simp_all add: zero_then_echoes_def echo_round_def run_defs example_defs)
  show ?thesis
    using counters_consistent_until_wrap
            [where bs = "zero_then_echoes 1" and n = 2 and fresh = example_io_context
               and init_ok = "\<lambda>p. True" and i = 0 and sock = 100 and h = 200]
      t c
    by (simp add: example_state_def example_context_def)
qed

subsection \<open>Ownership of the contexts\<close>

lemma startup_pool_inv: "pool_inv n (worker_startup n fresh init_ok wc)"
  by (auto simp add: worker_startup_def initial_recvs pool_inv_def)

lemma pool_inv_ctx: "pool_inv n (s\<lparr>ctx := c\<rparr>) = pool_inv n s"
  by (simp add: pool_inv_def)

lemma pool_inv_completed_recv:
  assumes "pool_inv n s" and "p < n"
  shows "pool_inv n (s\<lparr>outstanding := remove1 p (outstanding s)\<rparr>)"
    and "p \<notin> set (outstanding (s\<lparr>outstanding := remove1 p (outstanding s)\<rparr>))"
proof -
  have "{n ..< 2 * n} \<subseteq> (set (outstanding s) - {p}) \<union> set (available_send_contexts s)"
    using assms by (auto simp add: pool_inv_def)
  moreover have "set (outstanding s) - {p} \<subseteq> {0 ..< 2 * n}"
    "(set (outstanding s) - {p}) \<inter> set (available_send_contexts s) = {}"
    using assms by (auto simp add: pool_inv_def)
  ultimately show "pool_inv n (s\<lparr>outstanding := remove1 p (outstanding s)\<rparr>)"
    using assms(1) by (simp add: pool_inv_def)
  show "p \<notin> set (outstanding (s\<lparr>outstanding := remove1 p (outstanding s)\<rparr>))"
    using assms(1) by (simp add: pool_inv_def)
qed

lemma pool_inv_post_recv:
  assumes "pool_inv n s" and "p < n" and "p \<notin> set (outstanding s)"
  shows "pool_inv n (post_recv sock p ok s)"
proof -
  have "p \<notin> set (available_send_contexts s)"
    using assms(1,2) by (auto simp add: pool_inv_def)
  then show ?thesis
    using assms by (auto simp add: pool_inv_def post_recv_def)
qed

lemma pool_inv_completed_send:
  assumes "pool_inv n s" and "p \<in> set (outstanding s)" and "\<not> p < n"
  shows "pool_inv n (s\<lparr>outstanding := remove1 p (outstanding s),
                        available_send_contexts := available_send_contexts s @ [p]\<rparr>)"
proof -
  have "p \<notin> set (available_send_contexts s)" "p < 2 * n"
    using assms(1,2) by (auto simp add: pool_inv_def)
  then show ?thesis
    using assms by (auto simp add: pool_inv_def)
qed

lemma pool_inv_post_send:
  assumes "pool_inv n s" and "available_send_contexts s = xs @ [q]"
  shows "pool_inv n (post_send sock q d l a al True (s\<lparr>available_send_contexts := xs\<rparr>))"
    and "pool_inv n ((post_send sock q d l a al False (s\<lparr>available_send_contexts := xs\<rparr>))
                       \<lparr>available_send_contexts := xs @ [q]\<rparr>)"
proof -
  have q: "n \<le> q" "q < 2 * n" "q \<notin> set (outstanding s)" "q \<notin> set xs" "distinct xs"
    "set xs \<subseteq> {n ..< 2 * n}" "set (outstanding s) \<inter> set xs = {}"
    "{n ..< 2 * n} \<subseteq> set (outstanding s) \<union> insert q (set xs)"
    using assms by (auto simp add: pool_inv_def)
  have k: "\<forall>p \<in> set (outstanding s). operation (heap s p) = (if p < n then recv else send)"
    "distinct (outstanding s)" "set (outstanding s) \<subseteq> {0 ..< 2 * n}"
    "recv_contexts s = [0 ..< n]" "send_contexts s = [n ..< 2 * n]"
    using assms(1) by (simp_all add: pool_inv_def)
  show "pool_inv n (post_send sock q d l a al True (s\<lparr>available_send_contexts := xs\<rparr>))"
    unfolding pool_inv_def post_send_def using q k by auto
  show "pool_inv n ((post_send sock q d l a al False (s\<lparr>available_send_contexts := xs\<rparr>))
                       \<lparr>available_send_contexts := xs @ [q]\<rparr>)"
    unfolding pool_inv_def post_send_def using q k by auto
qed

lemma post_send_outstanding_recv:
  assumes "pool_inv n s" and "available_send_contexts s = xs @ [q]" and "p < n"
    and "p \<notin> set (outstanding s)"
  shows "p \<notin> set (outstanding (post_send sock q d l a al ok (s\<lparr>available_send_contexts := xs\<rparr>)))"
  using assms by (auto simp add: pool_inv_def post_send_def)

lemma step_pool_inv:
  assumes "pool_inv n s" and "admissible c s"
  shows "pool_inv n (step c s)"
proof (cases "lpOverlapped (entry c)")
  case None
  with assms show ?thesis
    by (simp add: step_def handle_entry_def deliver_def)
next
  case (Some p)
  with assms have pk: "p \<in> set (outstanding s)" by (simp add: admissible_def)
  define d where "d = s\<lparr>outstanding := remove1 p (outstanding s)\<rparr>"
  have d: "deliver (entry c) s = d"
    using Some by (simp add: deliver_def d_def)
  have tag: "operation (heap d p) = (if p < n then recv else send)"
    using assms(1) pk by (simp add: pool_inv_def d_def)
  show ?thesis
  proof (cases "p < n")
    case False
    then have "step c s = s\<lparr>outstanding := remove1 p (outstanding s),
         available_send_contexts := available_send_contexts s @ [p]\<rparr>"
      using Some tag by (simp add: step_def handle_entry_def d d_def)
    then show ?thesis
      using pool_inv_completed_send [OF assms(1) pk False] by simp
  next
    case True
    have dinv: "pool_inv n d" "p \<notin> set (outstanding d)"
      using pool_inv_completed_recv [OF assms(1) True] by (simp_all add: d_def)
    define s1 where "s1 = d\<lparr>ctx := count_received (dwNumberOfBytesTransferred (entry c)) (ctx d)\<rparr>"
    have s1: "pool_inv n s1" "p \<notin> set (outstanding s1)"
      using dinv by (simp_all add: s1_def pool_inv_ctx)
    show ?thesis
    proof (cases "0 < dwNumberOfBytesTransferred (entry c) \<and> available_send_contexts s1 \<noteq> []")
      case False
      then have "step c s = post_recv (socket (ctx s1)) p (recv_result c) s1"
        using Some tag True by (auto simp add: step_def handle_entry_def d Let_def s1_def)
      then show ?thesis
        using pool_inv_post_recv [OF s1(1) True s1(2)] by simp
    next
      case echo: True
      then obtain xs q where xs: "available_send_contexts s1 = xs @ [q]"
        by (meson rev_exhaust)
      show ?thesis
      proof (cases "send_result c")
        case True
        define s3 where "s3 = post_send (socket (ctx s1)) q (buffer (heap s1 p))
             (dwNumberOfBytesTransferred (entry c)) (remote_addr (heap s1 p))
             (remote_addr_len (heap s1 p)) True (s1\<lparr>available_send_contexts := xs\<rparr>)"
        have s3: "pool_inv n s3" "p \<notin> set (outstanding s3)"
          unfolding s3_def
          using pool_inv_post_send(1) [OF s1(1) xs]
            post_send_outstanding_recv [OF s1(1) xs \<open>p < n\<close> s1(2)]
          by simp_all
        define s4 where "s4 = s3\<lparr>ctx := count_sent (dwNumberOfBytesTransferred (entry c)) (ctx s3)\<rparr>"
        have s4: "pool_inv n s4" "p \<notin> set (outstanding s4)"
          using s3 by (simp_all add: s4_def pool_inv_ctx)
        have "step c s = post_recv (socket (ctx s4)) p (recv_result c) s4"
          using Some tag \<open>p < n\<close> echo True xs
          by (simp add: step_def handle_entry_def d Let_def s1_def [symmetric] s3_def s4_def)
        then show ?thesis
          using pool_inv_post_recv [OF s4(1) \<open>p < n\<close> s4(2)] by simp
      next
        case False
        define s3 where "s3 = post_send (socket (ctx s1)) q (buffer (heap s1 p))
             (dwNumberOfBytesTransferred (entry c)) (remote_addr (heap s1 p))
             (remote_addr_len (heap s1 p)) False (s1\<lparr>available_send_contexts := xs\<rparr>)"
        define s4 where "s4 = s3\<lparr>available_send_contexts := xs @ [q]\<rparr>"
        have s4: "pool_inv n s4" "p \<notin> set (outstanding s4)"
          unfolding s4_def s3_def
          using pool_inv_post_send(2) [OF s1(1) xs]
            post_send_outstanding_recv [OF s1(1) xs \<open>p < n\<close> s1(2)]
          by simp_all
        have "available_send_contexts s3 = xs"
          by (simp add: s3_def post_send_def)
        then have "step c s = post_recv (socket (ctx s4)) p (recv_result c) s4"
          using Some tag \<open>p < n\<close> echo False xs
          by (simp add: step_def handle_entry_def d Let_def s1_def [symmetric] s3_def [symmetric]
                s4_def)
        then show ?thesis
          using pool_inv_post_recv [OF s4(1) \<open>p < n\<close> s4(2)] by simp
      qed
    qed
  qed
qed

lemma run_pool_inv:
  "pool_inv n s \<Longrightarrow> valid_run cs s \<Longrightarrow> pool_inv n (process_entries cs s)"
proof (induction cs arbitrary: s)
  case Nil
  then show ?case by (simp add: process_entries_def)
next
  case (Cons c cs)
  then show ?case
    using step_pool_inv [of n s c] by (simp add: process_entries_def)
qed

lemma pool_counts:
  assumes "distinct ks" and "distinct pool"
  shows "length (filter (\<lambda>p. p \<in> set pool) ks) + length (filter (\<lambda>p. p \<notin> set ks) pool)
           = length pool"
proof -
  have "length (filter (\<lambda>p. p \<in> set pool) ks) = card (set pool \<inter> set ks)"
    using assms(1) by (simp add: distinct_length_filter)
  also have "\<dots> = card (set ks \<inter> set pool)"
    by (simp add: Int_commute)
  also have "\<dots> = length (filter (\<lambda>p. p \<in> set ks) pool)"
    using assms(2) by (simp add: distinct_length_filter)
  finally show ?thesis
    using sum_length_filter_compl [of "\<lambda>p. p \<in> set ks" pool] by simp
qed

lemma pool_inv_boundary:
  assumes "pool_inv n s"
  shows "length (recv_contexts s) = n" and "length (send_contexts s) = n"
    and "\<forall>p \<in> set (send_contexts s). length (ownerships None s p) = 1"
    and "in_kernel (recv_contexts s) s + in_application (recv_contexts s) s = n"
    and "in_kernel (send_contexts s) s + in_application (send_contexts s) s = n"
    and "in_application (send_contexts s) s = length (available_send_contexts s)"
proof -
  show "length (recv_contexts s) = n" "length (send_contexts s) = n"
    using assms by (simp_all add: pool_inv_def)
  show "\<forall>p \<in> set (send_contexts s). length (ownerships None s p) = 1"
    using assms by (auto simp add: pool_inv_def ownerships_def)
  have d: "distinct (outstanding s)" "distinct (recv_contexts s)" "distinct (send_contexts s)"
    using assms by (simp_all add: pool_inv_def)
  show "in_kernel (recv_contexts s) s + in_application (recv_contexts s) s = n"
    using pool_counts [OF d(1) d(2)] assms
    by (simp add: in_kernel_def in_application_def pool_inv_def)
  show "in_kernel (send_contexts s) s + in_application (send_contexts s) s = n"
    using pool_counts [OF d(1) d(3)] assms
    by (simp add: in_kernel_def in_application_def pool_inv_def)
  have "set (filter (\<lambda>p. p \<notin> set (outstanding s)) (send_contexts s))
          = set (available_send_contexts s)"
    using assms by (auto simp add: pool_inv_def)
  moreover have "distinct (filter (\<lambda>p. p \<notin> set (outstanding s)) (send_contexts s))"
    "distinct (available_send_contexts s)"
    using assms by (simp_all add: pool_inv_def)
  ultimately show "in_application (send_contexts s) s = length (available_send_contexts s)"
    unfolding in_application_def by (metis distinct_card)
qed

lemma pool_inv_delivered:
  assumes "pool_inv n s" and "admissible c s"
  shows "\<forall>p \<in> set (send_contexts s).
           length (ownerships (lpOverlapped (entry c)) (deliver (entry c) s) p) = 1"
proof (cases "lpOverlapped (entry c)")
  case None
  then show ?thesis
    using assms by (auto simp add: pool_inv_def ownerships_def deliver_def)
next
  case (Some q)
  then have "q \<in> set (outstanding s)" using assms(2) by (simp add: admissible_def)
  then show ?thesis
    using assms(1) Some by (auto simp add: pool_inv_def ownerships_def deliver_def)
qed

lemma last_recv_post_map:
  "last_recv_post (calls @ map (\<lambda>q. PostRecv sock q (f q)) qs) p
     = (if p \<in> set qs then Some (f p) else last_recv_post calls p)"
  by (induction qs rule: rev_induct) (auto simp add: last_recv_post_def)

lemma startup_recv_posts_inv: "recv_posts_inv n (worker_startup n fresh init_ok wc)"
  using last_recv_post_map [of "[]" _ init_ok "[0 ..< n]"]
  by (simp add: worker_startup_def initial_recvs recv_posts_inv_def)

lemma step_recv_posts_inv:
  assumes "pool_inv n s" and "recv_posts_inv n s" and "admissible c s"
  shows "recv_posts_inv n (step c s)"
proof (cases "lpOverlapped (entry c)")
  case None
  with assms(2) show ?thesis
    by (simp add: step_def handle_entry_def deliver_def)
next
  case (Some p)
  with assms have pk: "p \<in> set (outstanding s)" by (simp add: admissible_def)
  have dist: "distinct (outstanding s)"
    using assms(1) by (simp add: pool_inv_def)
  have tag: "operation (heap s p) = (if p < n then recv else send)"
    using assms(1) pk by (simp add: pool_inv_def)
  have inv: "\<forall>q < n. last_recv_post (posted s) q = Some (q \<in> set (outstanding s))"
    using assms(2) by (simp add: recv_posts_inv_def)
  show ?thesis
  proof (cases "p < n")
    case False
    then have "step c s = s\<lparr>outstanding := remove1 p (outstanding s),
         available_send_contexts := available_send_contexts s @ [p]\<rparr>"
      using Some tag by (simp add: step_def handle_entry_def deliver_def)
    then show ?thesis
      using inv False dist by (auto simp add: recv_posts_inv_def)
  next
    case True
    let ?bt = "dwNumberOfBytesTransferred (entry c)"
    show ?thesis
    proof (cases "0 < ?bt \<and> available_send_contexts s \<noteq> []")
      case False
      then have "posted (step c s) = posted s @ [PostRecv (socket (ctx s)) p (recv_result c)]"
        and "set (outstanding (step c s))
               = (set (outstanding s) - {p}) \<union> (if recv_result c then {p} else {})"
        using Some tag True dist
        by (auto simp add: step_def handle_entry_def deliver_def Let_def post_recv_def
              count_received_def)
      then show ?thesis
        using inv by (auto simp add: recv_posts_inv_def last_recv_post_def)
    next
      case echo: True
      let ?q = "last (available_send_contexts s)"
      have "?q \<in> set (available_send_contexts s)" using echo by simp
      then have q: "n \<le> ?q" using assms(1) by (auto simp add: pool_inv_def)
      have "posted (step c s) = posted s @
               [PostSend (socket (ctx s)) ?q (buffer (heap s p)) ?bt (remote_addr (heap s p))
                  (remote_addr_len (heap s p)) (send_result c),
                PostRecv (socket (ctx s)) p (recv_result c)]"
        and "set (outstanding (step c s))
               = (set (outstanding s) - {p}) \<union> (if send_result c then {?q} else {})
                   \<union> (if recv_result c then {p} else {})"
        using Some tag True dist echo
        by (auto simp add: step_def handle_entry_def deliver_def Let_def post_recv_def
              post_send_def count_received_def count_sent_def)
      then show ?thesis
        using inv q True by (auto simp add: recv_posts_inv_def last_recv_post_def)
    qed
  qed
qed

lemma run_recv_posts_inv:
  "pool_inv n s \<Longrightarrow> recv_posts_inv n s \<Longrightarrow> valid_run cs s
     \<Longrightarrow> recv_posts_inv n (process_entries cs s)"
proof (induction cs arbitrary: s)
  case Nil
  then show ?case by (simp add: process_entries_def)
next
  case (Cons c cs)
  then show ?case
    using step_pool_inv [of n s c] step_recv_posts_inv [of n s c]
    by (simp add: process_entries_def)
qed

lemma recv_boundary:
  assumes "pool_inv n s" and "recv_posts_inv n s"
  shows "\<forall>p \<in> set (recv_contexts s). length (recv_ownerships None s p) = 1"
    and "in_kernel (recv_contexts s) s + recv_in_application None s = n"
proof -
  have rc: "recv_contexts s = [0 ..< n]" using assms(1) by (simp add: pool_inv_def)
  have inv: "\<forall>q < n. last_recv_post (posted s) q = Some (q \<in> set (outstanding s))"
    using assms(2) by (simp add: recv_posts_inv_def)
  show "\<forall>p \<in> set (recv_contexts s). length (recv_ownerships None s p) = 1"
    using rc inv by (auto simp add: recv_ownerships_def)
  have "filter (\<lambda>p. None = Some p \<or> last_recv_post (posted s) p = Some False) [0 ..< n]
          = filter (\<lambda>p. p \<notin> set (outstanding s)) [0 ..< n]"
    using inv by (intro filter_cong) auto
  then have "recv_in_application None s = in_application (recv_contexts s) s"
    by (simp add: recv_in_application_def in_application_def rc)
  then show "in_kernel (recv_contexts s) s + recv_in_application None s = n"
    using pool_inv_boundary(4) [OF assms(1)] by simp
qed

lemma recv_delivered:
  assumes "pool_inv n s" and "recv_posts_inv n s" and "admissible c s"
  shows "\<forall>p \<in> set (recv_contexts s).
           length (recv_ownerships (lpOverlapped (entry c)) (deliver (entry c) s) p) = 1"
proof -
  have rc: "recv_contexts s = [0 ..< n]" and dist: "distinct (outstanding s)"
    using assms(1) by (simp_all add: pool_inv_def)
  have inv: "\<forall>q < n. last_recv_post (posted s) q = Some (q \<in> set (outstanding s))"
    using assms(2) by (simp add: recv_posts_inv_def)
  show ?thesis
  proof (cases "lpOverlapped (entry c)")
    case None
    then show ?thesis
      using rc inv by (auto simp add: recv_ownerships_def deliver_def)
  next
    case (Some q)
    then have "q \<in> set (outstanding s)" using assms(3) by (simp add: admissible_def)
    then show ?thesis
      using rc inv dist Some by (auto simp add: recv_ownerships_def deliver_def)
  qed
qed

text \<open>
  C5. Take a worker with \<open>OUTSTANDING_OPS = n\<close> and any state \<open>s\<close> its loop reaches from
  start-up, the kernel completing only requests that are outstanding. There are \<open>n\<close>
  contexts of each kind. Between two completions every Send Context is in exactly one
  state, and so it is once a further completion has been dequeued and is about to be
  handled (the completed context is then application-executing). No context has two
  requests outstanding or is twice on the free-list. Every Recv Context, too, is in
  exactly one state, between completions and once a completion has been dequeued: it has
  a request outstanding in the kernel, or it is the context being handled, or it is idle
  in the application after a \<open>post_recv\<close> on it failed. The Recv Contexts in the kernel and
  those the application holds (being handled, or idle after a failed post) are \<open>n\<close>
  together, and likewise the Send Contexts, whose application-held ones are, between
  completions, those on the free-list.
\<close>

theorem context_ownership_invariant:
  fixes bs :: "dequeue_result list" and n fresh init_ok wc
  defines "s0 \<equiv> worker_startup n fresh init_ok wc"
  defines "s \<equiv> worker_loop bs s0"
  assumes "valid_run (entries_of bs) s0"
  shows "length (send_contexts s) = n \<and> length (recv_contexts s) = n
       \<and> (\<forall>p \<in> set (send_contexts s). length (ownerships None s p) = 1)
       \<and> (\<forall>c. admissible c s \<longrightarrow> (\<forall>p \<in> set (send_contexts s).
             length (ownerships (lpOverlapped (entry c)) (deliver (entry c) s) p) = 1))
       \<and> distinct (outstanding s) \<and> distinct (available_send_contexts s)
       \<and> (\<forall>p \<in> set (recv_contexts s). length (recv_ownerships None s p) = 1)
       \<and> (\<forall>c. admissible c s \<longrightarrow> (\<forall>p \<in> set (recv_contexts s).
             length (recv_ownerships (lpOverlapped (entry c)) (deliver (entry c) s) p) = 1))
       \<and> in_kernel (recv_contexts s) s + recv_in_application None s = n
       \<and> in_kernel (send_contexts s) s + in_application (send_contexts s) s = n
       \<and> in_application (send_contexts s) s = length (available_send_contexts s)"
proof -
  have inv: "pool_inv n s"
    unfolding s_def worker_loop_entries
    using run_pool_inv [OF startup_pool_inv] assms(3) by (simp add: s0_def)
  have rinv: "recv_posts_inv n s"
    unfolding s_def worker_loop_entries
    using run_recv_posts_inv [OF startup_pool_inv startup_recv_posts_inv] assms(3)
    by (simp add: s0_def)
  have "distinct (outstanding s)" "distinct (available_send_contexts s)"
    using inv by (simp_all add: pool_inv_def)
  then show ?thesis
    using pool_inv_boundary [OF inv] pool_inv_delivered [OF inv]
      recv_boundary [OF inv rinv] recv_delivered [OF inv rinv]
    by simp
qed

theorem context_ownership_invariant_witness:
  "valid_run (entries_of [Dequeued [ok_completion 0 3,
       \<lparr>entry = completed 1 2, send_result = False, recv_result = False\<rparr>]]) example_state
 \<and> outstanding (worker_loop [Dequeued [ok_completion 0 3,
       \<lparr>entry = completed 1 2, send_result = False, recv_result = False\<rparr>]] example_state) = [3, 0]
 \<and> available_send_contexts (worker_loop [Dequeued [ok_completion 0 3,
       \<lparr>entry = completed 1 2, send_result = False, recv_result = False\<rparr>]] example_state) = [2]
 \<and> ownerships None (worker_loop [Dequeued [ok_completion 0 3,
       \<lparr>entry = completed 1 2, send_result = False, recv_result = False\<rparr>]] example_state) 2 = [application_free]
 \<and> ownerships None (worker_loop [Dequeued [ok_completion 0 3,
       \<lparr>entry = completed 1 2, send_result = False, recv_result = False\<rparr>]] example_state) 3 = [kernel_owned]
 \<and> recv_ownerships None (worker_loop [Dequeued [ok_completion 0 3,
       \<lparr>entry = completed 1 2, send_result = False, recv_result = False\<rparr>]] example_state) 0 = [kernel_owned]
 \<and> recv_ownerships None (worker_loop [Dequeued [ok_completion 0 3,
       \<lparr>entry = completed 1 2, send_result = False, recv_result = False\<rparr>]] example_state) 1 = [application_idle]
 \<and> in_kernel [0, 1] (worker_loop [Dequeued [ok_completion 0 3,
       \<lparr>entry = completed 1 2, send_result = False, recv_result = False\<rparr>]] example_state) = 1
 \<and> recv_in_application None (worker_loop [Dequeued [ok_completion 0 3,
       \<lparr>entry = completed 1 2, send_result = False, recv_result = False\<rparr>]] example_state) = 1
 \<and> in_kernel [2, 3] (worker_loop [Dequeued [ok_completion 0 3,
       \<lparr>entry = completed 1 2, send_result = False, recv_result = False\<rparr>]] example_state)
   + in_application [2, 3] (worker_loop [Dequeued [ok_completion 0 3,
       \<lparr>entry = completed 1 2, send_result = False, recv_result = False\<rparr>]] example_state) = 2"
  using context_ownership_invariant [where bs = "[Dequeued [ok_completion 0 3,
       \<lparr>entry = completed 1 2, send_result = False, recv_result = False\<rparr>]]"
       and n = 2 and fresh = example_io_context and init_ok = "\<lambda>p. True"
       and wc = example_context]
  by (simp add: example_defs run_defs admissible_def ownerships_def recv_ownerships_def
        in_kernel_def in_application_def recv_in_application_def last_recv_post_def)

section \<open>Properties of start-up\<close>

lemmas parse_defs = strtol_def atoi_def isspace_def isdigit_def LONG_MAX_def LONG_MIN_def

lemma strtol_range: "LONG_MIN \<le> strtol s \<and> strtol s \<le> LONG_MAX"
  by (simp add: strtol_def Let_def LONG_MIN_def LONG_MAX_def)

lemma word_of_int_32:
  assumes "0 < v" "v \<le> LONG_MAX"
  shows "uint (word_of_int v :: 32 word) = v"
  using assms by (simp add: LONG_MAX_def uint_word_of_int)

lemma create_worker_first_call:
  "hd (fst (create_worker i port rb os)) = CreateUdpSocket AF_INET6 (socket_v6 os)"
  by (simp add: create_worker_def Let_def case_prod_beta split: option.splits)

lemma create_worker_processor_id:
  "snd (create_worker i port rb os) = Some w \<Longrightarrow> processor_id w = i"
  by (auto simp add: create_worker_def setup_endpoint_def new_worker_context_def Let_def
        split: option.splits if_splits)

text \<open>
  C8. With \<open>requested\<close> the value \<open>atoi\<close> reads from the \<open>--cores\<close> argument: if it is
  0 or greater than the processor count, the worker count is the processor count; if it
  lies between 1 and the processor count, the worker count is that value. The loop that
  creates the workers makes exactly one attempt for each index below the worker count:
  the attempt at index \<open>i\<close> is the loop body run for \<open>i\<close> with the operating system's
  results at \<open>i\<close>, it begins by asking for an IPv6 socket, and a worker it retains has the
  processor id \<open>i\<close>.
\<close>

theorem cores_argument_worker_count:
  "((atoi cores_str = 0 \<or> uint num_processors < atoi cores_str)
      \<longrightarrow> select_num_workers num_processors cores_str = num_processors)
 \<and> (1 \<le> atoi cores_str \<and> atoi cores_str \<le> uint num_processors
      \<longrightarrow> uint (select_num_workers num_processors cores_str) = atoi cores_str)
 \<and> length (create_workers
      \<lparr> port_number = p, worker_count = select_num_workers num_processors cores_str,
        recv_buffer_bytes = rb \<rparr> os)
     = unat (select_num_workers num_processors cores_str)
 \<and> (\<forall>i < unat (select_num_workers num_processors cores_str).
       create_workers
         \<lparr> port_number = p, worker_count = select_num_workers num_processors cores_str,
           recv_buffer_bytes = rb \<rparr> os ! i
         = create_worker (of_nat i) p rb (os i)
     \<and> hd (fst (create_workers
         \<lparr> port_number = p, worker_count = select_num_workers num_processors cores_str,
           recv_buffer_bytes = rb \<rparr> os ! i))
         = CreateUdpSocket AF_INET6 (socket_v6 (os i))
     \<and> (\<forall>w. snd (create_workers
         \<lparr> port_number = p, worker_count = select_num_workers num_processors cores_str,
           recv_buffer_bytes = rb \<rparr> os ! i) = Some w \<longrightarrow> processor_id w = of_nat i))"
proof -
  have r: "atoi cores_str \<le> LONG_MAX" using strtol_range by (simp add: atoi_def)
  have ne: "cores_str \<noteq> []" if "1 \<le> atoi cores_str"
    using that by (auto simp add: atoi_def strtol_def LONG_MIN_def LONG_MAX_def)
  have sel: "((atoi cores_str = 0 \<or> uint num_processors < atoi cores_str)
      \<longrightarrow> select_num_workers num_processors cores_str = num_processors)
    \<and> (1 \<le> atoi cores_str \<and> atoi cores_str \<le> uint num_processors
      \<longrightarrow> uint (select_num_workers num_processors cores_str) = atoi cores_str)"
    using r ne word_of_int_32 [of "atoi cores_str"]
    by (auto simp add: select_num_workers_def Let_def word_le_def)
  have att: "create_workers \<lparr> port_number = p, worker_count = k, recv_buffer_bytes = rb \<rparr> os ! i
      = create_worker (of_nat i) p rb (os i)" if "i < unat k" for i and k :: "32 word"
    using that by (simp add: create_workers_def)
  show ?thesis
    using sel att create_worker_first_call create_worker_processor_id
    by (simp add: create_workers_def)
qed

theorem cores_argument_worker_count_witness:
  "atoi ''0'' = 0 \<and> select_num_workers 8 ''0'' = 8
 \<and> atoi ''12'' = 12 \<and> select_num_workers 8 ''12'' = 8
 \<and> atoi ''3'' = 3 \<and> select_num_workers 8 ''3'' = 3
 \<and> length (create_workers
      \<lparr> port_number = 9000, worker_count = select_num_workers 8 ''3'',
        recv_buffer_bytes = 4194304 \<rparr> (\<lambda>i. example_os)) = 3
 \<and> (2 :: nat) < unat (select_num_workers 8 ''3'')
 \<and> create_workers
      \<lparr> port_number = 9000, worker_count = select_num_workers 8 ''3'',
        recv_buffer_bytes = 4194304 \<rparr> (\<lambda>i. example_os) ! 2
     = ([CreateUdpSocket AF_INET6 (Some 7), SetV6Only 7 0 (- 1),
         SetSocketCpuAffinity 7 2 True, SetRcvBuf 7 4194304 0, SetSndBuf 7 4194304 0,
         Bind 7 AF_INET6 9000 0, CreateIocp 7 (Some 9)],
        Some (new_worker_context 2 7 9))"
proof -
  have v: "atoi ''0'' = 0" "atoi ''12'' = 12" "atoi ''3'' = 3"
    by (simp_all add: parse_defs)
  have w: "select_num_workers 8 ''3'' = 3"
    by (simp add: select_num_workers_def v)
  have c: "create_worker 2 9000 4194304 example_os
     = ([CreateUdpSocket AF_INET6 (Some 7), SetV6Only 7 0 (- 1),
         SetSocketCpuAffinity 7 2 True, SetRcvBuf 7 4194304 0, SetSndBuf 7 4194304 0,
         Bind 7 AF_INET6 9000 0, CreateIocp 7 (Some 9)],
        Some (new_worker_context 2 7 9))"
    by (simp add: create_worker_def setup_endpoint_def example_os_def SOCKET_ERROR_def Let_def)
  show ?thesis
    using cores_argument_worker_count [of "''0''" 8 9000 4194304 "\<lambda>i. example_os"]
      cores_argument_worker_count [of "''12''" 8 9000 4194304 "\<lambda>i. example_os"]
      cores_argument_worker_count [of "''3''" 8 9000 4194304 "\<lambda>i. example_os"]
      v w c
    by simp
qed





lemma setup_endpoint_calls:
  "CreateUdpSocket f r \<notin> set (fst (setup_endpoint i port rb os sock v6))"
  "SetV6Only a b c \<notin> set (fst (setup_endpoint i port rb os sock v6))"
  "Bind a f p rc \<in> set (fst (setup_endpoint i port rb os sock v6))
     \<Longrightarrow> a = sock \<and> f = (if v6 then AF_INET6 else AF_INET)"
  by (auto simp add: setup_endpoint_def Let_def split: option.splits if_splits)

lemma setup_endpoint_retained:
  "snd (setup_endpoint i port rb os sock v6) = Some w
     \<longleftrightarrow> bind_rc os \<noteq> SOCKET_ERROR
        \<and> (\<exists>h. iocp_handle os = Some h \<and> w = new_worker_context i sock h)"
  by (auto simp add: setup_endpoint_def Let_def split: option.splits)

text \<open>
  C7, as stated, fails on the code in its last part. With \<open>example_os\<close> the IPv6 socket
  is created, \<open>setsockopt(IPV6_V6ONLY, 0)\<close> fails, and the worker is retained all the
  same, bound as IPv6: a retained IPv6 endpoint whose IPv6-only flag was not cleared.
\<close>

theorem retained_ipv6_endpoint_not_dual_stack:
  "create_worker 0 9000 4194304 example_os
     = ([CreateUdpSocket AF_INET6 (Some 7), SetV6Only 7 0 (- 1),
         SetSocketCpuAffinity 7 0 True, SetRcvBuf 7 4194304 0, SetSndBuf 7 4194304 0,
         Bind 7 AF_INET6 9000 0, CreateIocp 7 (Some 9)],
        Some (new_worker_context 0 7 9))
 \<and> \<not> v6only_cleared (fst (create_worker 0 9000 4194304 example_os)) 7"
  by (simp add: create_worker_def setup_endpoint_def example_os_def SOCKET_ERROR_def
        v6only_cleared_def Let_def)

text \<open>
  C7, amended. For every worker index the first call creates an IPv6 socket, and an IPv4
  socket is created exactly when that fails. When the IPv6 socket is created, the next
  call tries to clear its IPv6-only flag; the flag is cleared exactly when that call
  returns 0; whether it does or not, the socket is bound as IPv6 and no other, and the
  worker is retained exactly when bind and the completion port succeed. A bind in the
  IPv4 family is made only on the fallback socket.
\<close>

theorem ipv6_preferred_ipv4_fallback:
  fixes i :: "32 word" and port rb :: int and os :: os_results
  defines "calls \<equiv> fst (create_worker i port rb os)"
  defines "worker \<equiv> snd (create_worker i port rb os)"
  shows "hd calls = CreateUdpSocket AF_INET6 (socket_v6 os)
       \<and> ((\<exists>r. CreateUdpSocket AF_INET r \<in> set calls) \<longleftrightarrow> socket_v6 os = None)
       \<and> (\<forall>sock. socket_v6 os = Some sock \<longrightarrow>
             calls ! 1 = SetV6Only sock 0 (v6only_rc os)
           \<and> (v6only_cleared calls sock \<longleftrightarrow> v6only_rc os = 0)
           \<and> (\<forall>w. worker = Some w \<longleftrightarrow>
                 bind_rc os \<noteq> SOCKET_ERROR
               \<and> (\<exists>h. iocp_handle os = Some h \<and> w = new_worker_context i sock h))
           \<and> (\<forall>a f p rc. Bind a f p rc \<in> set calls \<longrightarrow> a = sock \<and> f = AF_INET6))
       \<and> (\<forall>a f p rc. Bind a f p rc \<in> set calls \<and> f = AF_INET \<longrightarrow>
             socket_v6 os = None \<and> socket_v4 os = Some a)"
proof (cases "socket_v6 os")
  case None
  show ?thesis
  proof (cases "socket_v4 os")
    case n4: None
    with None show ?thesis
      by (simp add: calls_def worker_def create_worker_def)
  next
    case (Some sock)
    obtain cs w where sw: "setup_endpoint i port rb os sock False = (cs, w)"
      by (cases "setup_endpoint i port rb os sock False")
    have c: "calls = [CreateUdpSocket AF_INET6 None, CreateUdpSocket AF_INET (Some sock)] @ cs"
      using None Some sw by (simp add: calls_def create_worker_def)
    show ?thesis
      using None Some c sw
        setup_endpoint_calls(3) [where i = i and port = port and rb = rb and os = os
          and sock = sock and ?v6.0 = False]
      by auto
  qed
next
  case (Some sock)
  obtain cs w where sw: "setup_endpoint i port rb os sock True = (cs, w)"
    by (cases "setup_endpoint i port rb os sock True")
  have c: "calls = [CreateUdpSocket AF_INET6 (Some sock), SetV6Only sock 0 (v6only_rc os)] @ cs"
    and w: "worker = w"
    using Some sw by (simp_all add: calls_def worker_def create_worker_def)
  have cs: "\<And>f r. CreateUdpSocket f r \<notin> set cs" "\<And>a b c. SetV6Only a b c \<notin> set cs"
    "\<And>a f p rc. Bind a f p rc \<in> set cs \<Longrightarrow> a = sock \<and> f = AF_INET6"
    using setup_endpoint_calls(1,2) [where i = i and port = port and rb = rb and os = os
        and sock = sock and ?v6.0 = True]
      setup_endpoint_calls(3) [where i = i and port = port and rb = rb and os = os
        and sock = sock and ?v6.0 = True] sw
    by auto
  have r: "\<And>w'. w = Some w' \<longleftrightarrow> bind_rc os \<noteq> SOCKET_ERROR
        \<and> (\<exists>h. iocp_handle os = Some h \<and> w' = new_worker_context i sock h)"
    using setup_endpoint_retained [of i port rb os sock True] sw by simp
  show ?thesis
    using Some c w cs(1,2) r by (auto simp add: v6only_cleared_def dest!: cs(3))
qed

theorem ipv6_preferred_ipv4_fallback_witness:
  "socket_v6 example_os = Some 7
 \<and> hd (fst (create_worker 0 9000 4194304 example_os)) = CreateUdpSocket AF_INET6 (Some 7)
 \<and> fst (create_worker 0 9000 4194304 example_os) ! 1 = SetV6Only 7 0 (- 1)
 \<and> snd (create_worker 0 9000 4194304 example_os) = Some (new_worker_context 0 7 9)
 \<and> socket_v6 (example_os\<lparr>socket_v6 := None\<rparr>) = None
 \<and> fst (create_worker 0 9000 4194304 (example_os\<lparr>socket_v6 := None\<rparr>))
     = [CreateUdpSocket AF_INET6 None, CreateUdpSocket AF_INET (Some 8),
        SetSocketCpuAffinity 8 0 True, SetRcvBuf 8 4194304 0, SetSndBuf 8 4194304 0,
        Bind 8 AF_INET 9000 0, CreateIocp 8 (Some 9)]"
  using ipv6_preferred_ipv4_fallback [of 0 9000 4194304 example_os]
    ipv6_preferred_ipv4_fallback [of 0 9000 4194304 "example_os\<lparr>socket_v6 := None\<rparr>"]
  by (simp add: create_worker_def setup_endpoint_def example_os_def SOCKET_ERROR_def Let_def)

section \<open>Properties of the t-digest\<close>










end
